theory Spec2Isabelle
  imports Main
begin

section \<open>Values read from and written to JSON files\<close>

text \<open>
  Both scripts handle Python values that come out of \<^verbatim>\<open>json.load\<close> (or
  \<^verbatim>\<open>response.json()\<close>): \<^verbatim>\<open>None\<close>, booleans, integers, strings, lists and
  dictionaries with string keys. A dictionary is an association list in insertion order
  with pairwise different keys, as \<^verbatim>\<open>json.load\<close> builds it. JSON numbers with a
  fraction or an exponent (Python floats) are outside this model.
\<close>

datatype json =
    JNull
  | JBool bool
  | JInt int
  | JStr string
  | JArr "json list"
  | JObj "(string \<times> json) list"

text \<open>The exceptions that the modelled code can raise.\<close>

datatype exn =
    JSONDecodeError
  | AttributeError
  | KeyError
  | TypeError
  | IndexError
  | UnboundLocalError
  | SystemExit int
  | ServiceError string

text \<open>\<^verbatim>\<open>d.get(k)\<close>: only a dictionary has the method; a missing key gives \<^verbatim>\<open>None\<close>.\<close>

definition py_get :: "json \<Rightarrow> string \<Rightarrow> exn + json" where
  "py_get d k =
     (case d of
        JObj kvs \<Rightarrow> (case map_of kvs k of None \<Rightarrow> Inr JNull | Some v \<Rightarrow> Inr v)
      | _ \<Rightarrow> Inl AttributeError)"

text \<open>\<^verbatim>\<open>d[k]\<close> with a string key \<open>k\<close>: a missing key raises \<^verbatim>\<open>KeyError\<close>.\<close>

definition py_item :: "json \<Rightarrow> string \<Rightarrow> exn + json" where
  "py_item d k =
     (case d of
        JObj kvs \<Rightarrow> (case map_of kvs k of None \<Rightarrow> Inl KeyError | Some v \<Rightarrow> Inr v)
      | _ \<Rightarrow> Inl TypeError)"

text \<open>\<^verbatim>\<open>d[k] = v\<close>: an existing key keeps its position, a new key goes last.\<close>

fun dict_set :: "string \<Rightarrow> json \<Rightarrow> (string \<times> json) list \<Rightarrow> (string \<times> json) list" where
  "dict_set k v [] = [(k, v)]"
| "dict_set k v (p # ps) = (if fst p = k then (k, v) # ps else p # dict_set k v ps)"

definition py_set_item :: "json \<Rightarrow> string \<Rightarrow> json \<Rightarrow> exn + json" where
  "py_set_item d k v =
     (case d of
        JObj kvs \<Rightarrow> Inr (JObj (dict_set k v kvs))
      | _ \<Rightarrow> Inl TypeError)"

text \<open>
  \<^verbatim>\<open>v >= n\<close> and \<^verbatim>\<open>v + n\<close> for an integer \<open>n\<close>: Python's \<^verbatim>\<open>bool\<close> is a
  subclass of \<^verbatim>\<open>int\<close>; every other JSON value raises \<^verbatim>\<open>TypeError\<close>.
\<close>

definition py_ge :: "json \<Rightarrow> int \<Rightarrow> exn + bool" where
  "py_ge v n =
     (case v of
        JInt k \<Rightarrow> Inr (k \<ge> n)
      | JBool b \<Rightarrow> Inr ((if b then 1 else 0) \<ge> n)
      | _ \<Rightarrow> Inl TypeError)"

definition py_add :: "json \<Rightarrow> int \<Rightarrow> exn + json" where
  "py_add v n =
     (case v of
        JInt k \<Rightarrow> Inr (JInt (k + n))
      | JBool b \<Rightarrow> Inr (JInt ((if b then 1 else 0) + n))
      | _ \<Rightarrow> Inl TypeError)"

section \<open>The usage-capped generator (\<^verbatim>\<open>imagen_generate.py\<close>)\<close>

subsection \<open>Configuration\<close>

definition PROJECT_ID :: string where
  "PROJECT_ID = ''techair-actech''"

definition LOCATION :: string where
  "LOCATION = ''us-central1''"

definition MODEL_ID :: string where
  "MODEL_ID = ''imagegeneration@006''"

definition MONTHLY_CAP :: int where
  "MONTHLY_CAP = 2500"

text \<open>The path of the credentials file, as the script writes it.\<close>

definition CREDENTIALS_FILE :: string where
  "CREDENTIALS_FILE = ''D:/TechAI/Credentials/TechAir Vertex JSON API Key.json''"

subsection \<open>The usage file and the effects of a run\<close>

text \<open>
  The state of \<^verbatim>\<open>USAGE_FILE\<close>: it does not exist (\<open>None\<close>), or it exists and
  \<^verbatim>\<open>json.load\<close> either rejects its text (\<open>NotJSON\<close>) or parses it to a value.
  Writing a value with \<^verbatim>\<open>json.dump\<close> leaves a file that parses back to that value.
  The file system itself is taken to work: opening the file does not fail.
\<close>

datatype content = NotJSON | Parsed json

type_synonym store = "content option"

text \<open>
  What a run prints, with the values that the f-strings interpolate, and what it does
  to the world outside, in the order in which it happens. Printing is taken to succeed.
\<close>

datatype msg =
    CapReached int
  | CurrentUsage json int
  | UsageOk json int
  | NotInstalled
  | RunPipInstall
  | Initializing string
  | Generating string
  | ImageSaved string

datatype event =
    Print msg
  | SaveUsage json
  | SetEnv string string
  | VertexInit string string
  | FromPretrained string
  | GenerateImages string nat
  | SaveImage string

subsection \<open>The quota gate\<close>

text \<open>
  \<^verbatim>\<open>load_usage\<close>. The argument \<open>now\<close> is what
  \<^verbatim>\<open>datetime.now().strftime("%Y-%m")\<close> returns when the function reads the clock.
\<close>

definition load_usage :: "string \<Rightarrow> store \<Rightarrow> exn + json" where
  "load_usage now st =
     (case st of
        Some NotJSON \<Rightarrow> Inl JSONDecodeError
      | Some (Parsed v) \<Rightarrow> Inr v
      | None \<Rightarrow> Inr (JObj [(''month'', JStr now), (''count'', JInt 0)]))"

text \<open>\<^verbatim>\<open>save_usage\<close> overwrites the file: the new state of the store and the write.\<close>

definition save_usage :: "json \<Rightarrow> store \<times> event list" where
  "save_usage usage = (Some (Parsed usage), [SaveUsage usage])"

text \<open>
  \<^verbatim>\<open>check_and_increment_usage\<close>. The module constant \<^verbatim>\<open>MONTHLY_CAP\<close> is the
  parameter \<open>cap\<close> (the script runs with \<^const>\<open>MONTHLY_CAP\<close>). The function reads
  the clock twice: \<open>now_load\<close> inside \<^verbatim>\<open>load_usage\<close>, then \<open>now\<close> for
  \<^verbatim>\<open>current_month\<close>. The result is what the call returns or raises, the store
  after the call, and the events of the call.
\<close>

definition check_and_increment_usage ::
  "int \<Rightarrow> string \<Rightarrow> string \<Rightarrow> store \<Rightarrow> (exn + bool) \<times> store \<times> event list" where
  "check_and_increment_usage cap now_load now st =
     (case load_usage now_load st of
        Inl e \<Rightarrow> (Inl e, st, [])
      | Inr loaded \<Rightarrow>
         (case py_get loaded ''month'' of
            Inl e \<Rightarrow> (Inl e, st, [])
          | Inr mon \<Rightarrow>
             (let usage = (if mon \<noteq> JStr now
                           then JObj [(''month'', JStr now), (''count'', JInt 0)]
                           else loaded)
              in case py_item usage ''count'' of
                   Inl e \<Rightarrow> (Inl e, st, [])
                 | Inr c \<Rightarrow>
                    (case py_ge c cap of
                       Inl e \<Rightarrow> (Inl e, st, [])
                     | Inr True \<Rightarrow>
                         (Inr False, st, [Print (CapReached cap), Print (CurrentUsage c cap)])
                     | Inr False \<Rightarrow>
                        (case py_add c 1 of
                           Inl e \<Rightarrow> (Inl e, st, [])
                         | Inr c' \<Rightarrow>
                            (case py_set_item usage ''count'' c' of
                               Inl e \<Rightarrow> (Inl e, st, [])
                             | Inr usage' \<Rightarrow>
                                (case save_usage usage' of
                                   (st', evs) \<Rightarrow>
                                     (Inr True, st', evs @ [Print (UsageOk c' cap)]))))))))"

text \<open>The record \<^verbatim>\<open>{"month": m, "count": k}\<close>.\<close>

definition usage_record :: "string \<Rightarrow> int \<Rightarrow> json" where
  "usage_record m k = JObj [(''month'', JStr m), (''count'', JInt k)]"

subsection \<open>The generation request\<close>

text \<open>
  What the Vertex AI client library does when \<^verbatim>\<open>generate_image\<close> calls it: whether
  the import succeeds, whether \<^verbatim>\<open>vertexai.init\<close>,
  \<^verbatim>\<open>ImageGenerationModel.from_pretrained\<close> and the image's \<^verbatim>\<open>save\<close> raise, and
  what \<^verbatim>\<open>generate_images\<close> gives (an exception, or that many images).
\<close>

record vertex =
  installed :: bool
  init_raises :: "exn option"
  from_pretrained_raises :: "exn option"
  generate_images_result :: "exn + nat"
  save_raises :: "exn option"

text \<open>
  \<^verbatim>\<open>generate_image\<close>: \<^verbatim>\<open>sys.exit(1)\<close> raises \<^verbatim>\<open>SystemExit(1)\<close>, and
  \<^verbatim>\<open>images[0]\<close> on an empty result raises \<^verbatim>\<open>IndexError\<close>.
\<close>

definition generate_image ::
  "int \<Rightarrow> string \<Rightarrow> string \<Rightarrow> vertex \<Rightarrow> string \<Rightarrow> string \<Rightarrow> store
     \<Rightarrow> (exn + string) \<times> store \<times> event list" where
  "generate_image cap now_load now sdk prompt output_path st =
     (case check_and_increment_usage cap now_load now st of
        (Inl e, st1, evs) \<Rightarrow> (Inl e, st1, evs)
      | (Inr False, st1, evs) \<Rightarrow> (Inl (SystemExit 1), st1, evs)
      | (Inr True, st1, evs) \<Rightarrow>
         (let evs = evs @ [SetEnv ''GOOGLE_APPLICATION_CREDENTIALS'' CREDENTIALS_FILE] in
          if \<not> installed sdk
          then (Inl (SystemExit 1), st1, evs @ [Print NotInstalled, Print RunPipInstall])
          else
            (let evs = evs @ [Print (Initializing PROJECT_ID), VertexInit PROJECT_ID LOCATION] in
             case init_raises sdk of
               Some e \<Rightarrow> (Inl e, st1, evs)
             | None \<Rightarrow>
                (let evs = evs @ [Print (Generating (take 50 prompt)), FromPretrained MODEL_ID] in
                 case from_pretrained_raises sdk of
                   Some e \<Rightarrow> (Inl e, st1, evs)
                 | None \<Rightarrow>
                    (let evs = evs @ [GenerateImages prompt 1] in
                     case generate_images_result sdk of
                       Inl e \<Rightarrow> (Inl e, st1, evs)
                     | Inr n \<Rightarrow>
                        if n = 0 then (Inl IndexError, st1, evs)
                        else
                          (let evs = evs @ [SaveImage output_path] in
                           case save_raises sdk of
                             Some e \<Rightarrow> (Inl e, st1, evs)
                           | None \<Rightarrow>
                               (Inr output_path, st1,
                                evs @ [Print (ImageSaved output_path)])))))))"

subsection \<open>Sequences of calls\<close>

text \<open>
  The outcome of a call that is granted and leaves the record \<^verbatim>\<open>{"month": m, "count": k}\<close>,
  and of a call that is refused at count \<open>k\<close> and leaves the store \<open>st\<close> as it was.
\<close>

definition granted :: "int \<Rightarrow> string \<Rightarrow> int \<Rightarrow> (exn + bool) \<times> store \<times> event list" where
  "granted cap m k =
     (Inr True, Some (Parsed (usage_record m k)),
      [SaveUsage (usage_record m k), Print (UsageOk (JInt k) cap)])"

definition refused :: "int \<Rightarrow> store \<Rightarrow> int \<Rightarrow> (exn + bool) \<times> store \<times> event list" where
  "refused cap st k =
     (Inr False, st, [Print (CapReached cap), Print (CurrentUsage (JInt k) cap)])"

text \<open>
  Calls of the gate one after the other, each on the store that the call before left. A
  call is given by its two readings of the clock, \<open>(now_load, now)\<close>; the result lists,
  for every call, what it returned, the store after it and its events.
\<close>

fun sequential_calls ::
  "int \<Rightarrow> (string \<times> string) list \<Rightarrow> store \<Rightarrow> ((exn + bool) \<times> store \<times> event list) list" where
  "sequential_calls cap [] st = []"
| "sequential_calls cap (clk # clks) st =
     (case check_and_increment_usage cap (fst clk) (snd clk) st of
        (r, st', evs) \<Rightarrow> (r, st', evs) # sequential_calls cap clks st')"

fun store_after :: "int \<Rightarrow> (string \<times> string) list \<Rightarrow> store \<Rightarrow> store" where
  "store_after cap [] st = st"
| "store_after cap (clk # clks) st =
     store_after cap clks (fst (snd (check_and_increment_usage cap (fst clk) (snd clk) st)))"

text \<open>
  The data model's condition on a stored record: an integer count is not negative.
\<close>

definition count_nonneg :: "store \<Rightarrow> bool" where
  "count_nonneg st =
     (case st of
        Some (Parsed (JObj kvs)) \<Rightarrow>
          (case map_of kvs ''count'' of Some (JInt k) \<Rightarrow> 0 \<le> k | _ \<Rightarrow> True)
      | _ \<Rightarrow> True)"

text \<open>
  An event is in order for a call in month \<open>now\<close> when, if it is a write of the usage
  file, the written value has that month and an integer count of at least 1.
\<close>

definition good_write :: "string \<Rightarrow> event \<Rightarrow> bool" where
  "good_write now ev =
     (case ev of
        SaveUsage v \<Rightarrow>
          py_get v ''month'' = Inr (JStr now)
          \<and> (case py_item v ''count'' of Inr (JInt k) \<Rightarrow> 1 \<le> k | _ \<Rightarrow> False)
      | _ \<Rightarrow> True)"

section \<open>The search client (\<^verbatim>\<open>freepik_client.py\<close>)\<close>

definition BASE_URL :: string where
  "BASE_URL = ''https://api.freepik.com/v1''"

text \<open>
  \<^verbatim>\<open>requests.get\<close> either raises because the request did not get through, or returns
  a response. The \<^verbatim>\<open>except\<close> clause of \<^verbatim>\<open>search_resources\<close> catches
  \<^verbatim>\<open>requests.exceptions.RequestException\<close>: a transport failure, the
  \<^verbatim>\<open>HTTPError\<close> of \<^verbatim>\<open>raise_for_status\<close>, and the \<^verbatim>\<open>JSONDecodeError\<close> of
  \<^verbatim>\<open>response.json()\<close> (a \<^verbatim>\<open>RequestException\<close> in the \<^verbatim>\<open>requests\<close> library
  since version 2.27).
\<close>

datatype transport_failure = ConnectionError | Timeout | TooManyRedirects

datatype request_exception =
    Transport transport_failure
  | HTTPError int
  | RequestsJSONDecodeError

text \<open>
  A response: its status, its body as text (\<^verbatim>\<open>response.text\<close>) and what
  \<^verbatim>\<open>response.json()\<close> makes of the body.
\<close>

record response =
  status_code :: int
  text' :: string
  body :: content

datatype reply = Failed transport_failure | Reply response

datatype notice =
    Searching string
  | Found nat
  | Resource json json json
  | ApiError request_exception
  | ResponseText string

datatype action =
    Say notice
  | Get string "(string \<times> string) list" "(string \<times> json) list"

text \<open>\<^verbatim>\<open>d.get(k, dflt)\<close>, \<^verbatim>\<open>len(v)\<close> and the items of \<^verbatim>\<open>for res in v\<close>.\<close>

definition py_get_default :: "json \<Rightarrow> string \<Rightarrow> json \<Rightarrow> exn + json" where
  "py_get_default d k dflt =
     (case d of
        JObj kvs \<Rightarrow> (case map_of kvs k of None \<Rightarrow> Inr dflt | Some v \<Rightarrow> Inr v)
      | _ \<Rightarrow> Inl AttributeError)"

definition py_len :: "json \<Rightarrow> exn + nat" where
  "py_len v =
     (case v of
        JArr xs \<Rightarrow> Inr (length xs)
      | JObj kvs \<Rightarrow> Inr (length kvs)
      | JStr s \<Rightarrow> Inr (length s)
      | _ \<Rightarrow> Inl TypeError)"

definition py_iter :: "json \<Rightarrow> exn + json list" where
  "py_iter v =
     (case v of
        JArr xs \<Rightarrow> Inr xs
      | JObj kvs \<Rightarrow> Inr (map (\<lambda>kv. JStr (fst kv)) kvs)
      | JStr s \<Rightarrow> Inr (map (\<lambda>c. JStr [c]) s)
      | _ \<Rightarrow> Inl TypeError)"

text \<open>
  The body of the loop: the line printed for one result. The f-string calls
  \<^verbatim>\<open>res.get\<close> three times before anything is printed.
\<close>

definition resource_line :: "json \<Rightarrow> exn + action" where
  "resource_line res =
     (case py_get res ''id'' of
        Inl e \<Rightarrow> Inl e
      | Inr i \<Rightarrow>
         (case py_get res ''title'' of
            Inl e \<Rightarrow> Inl e
          | Inr t \<Rightarrow>
             (case py_get res ''url'' of
                Inl e \<Rightarrow> Inl e
              | Inr u \<Rightarrow> Inr (Say (Resource i t u)))))"

fun print_resources :: "json list \<Rightarrow> exn option \<times> action list" where
  "print_resources [] = (None, [])"
| "print_resources (res # rest) =
     (case resource_line res of
        Inl e \<Rightarrow> (Some e, [])
      | Inr line \<Rightarrow> (case print_resources rest of (r, lines) \<Rightarrow> (r, line # lines)))"

text \<open>
  The \<^verbatim>\<open>except\<close> clause. It reads the local variable \<^verbatim>\<open>response\<close>, which is bound
  only if \<^verbatim>\<open>requests.get\<close> returned: \<open>bound\<close> is its value, if it has one.
\<close>

definition on_request_exception ::
  "request_exception \<Rightarrow> response option \<Rightarrow> (exn + json) \<times> action list" where
  "on_request_exception e bound =
     (case bound of
        None \<Rightarrow> (Inl UnboundLocalError, [Say (ApiError e)])
      | Some response \<Rightarrow>
          (Inr (JArr []),
           Say (ApiError e)
           # (if text' response \<noteq> [] then [Say (ResponseText (text' response))] else [])))"

text \<open>
  \<^verbatim>\<open>search_resources\<close>. The module's \<^verbatim>\<open>API_KEY\<close> is the parameter \<open>api_key\<close>, and
  \<open>net\<close> is what the network does with the one request.
\<close>

definition search_resources ::
  "string \<Rightarrow> string \<Rightarrow> int \<Rightarrow> int \<Rightarrow> reply \<Rightarrow> (exn + json) \<times> action list" where
  "search_resources api_key query limit page net =
     (let url = BASE_URL @ ''/resources'';
          headers = [(''Accept-Language'', ''en-US''), (''X-Freepik-API-Key'', api_key)];
          params = [(''locale'', JStr ''en-US''), (''page'', JInt page),
                    (''limit'', JInt limit), (''term'', JStr query)];
          acts = [Say (Searching query), Get url headers params];
          except = (\<lambda>e bound sofar.
            case on_request_exception e bound of (r, said) \<Rightarrow> (r, sofar @ said))
      in case net of
           Failed e \<Rightarrow> except (Transport e) None acts
         | Reply response \<Rightarrow>
             if 400 \<le> status_code response \<and> status_code response < 600
             then except (HTTPError (status_code response)) (Some response) acts
             else
               (case body response of
                  NotJSON \<Rightarrow> except RequestsJSONDecodeError (Some response) acts
                | Parsed data \<Rightarrow>
                   (case py_get_default data ''data'' (JArr []) of
                      Inl e \<Rightarrow> (Inl e, acts)
                    | Inr resources \<Rightarrow>
                       (case py_len resources of
                          Inl e \<Rightarrow> (Inl e, acts)
                        | Inr n \<Rightarrow>
                           (let acts = acts @ [Say (Found n)] in
                            case py_iter resources of
                              Inl e \<Rightarrow> (Inl e, acts)
                            | Inr items \<Rightarrow>
                               (case print_resources items of
                                  (Some e, lines) \<Rightarrow> (Inl e, acts @ lines)
                                | (None, lines) \<Rightarrow> (Inr resources, acts @ lines)))))))"

text \<open>
  What the request of a search looks like, and the specification's result summary of a
  result object: its \<^verbatim>\<open>id\<close>, \<^verbatim>\<open>title\<close> and \<^verbatim>\<open>url\<close> and nothing else (a member
  that the object lacks is \<^verbatim>\<open>None\<close>).
\<close>

definition search_request :: "string \<Rightarrow> string \<Rightarrow> int \<Rightarrow> int \<Rightarrow> action list" where
  "search_request api_key query limit page =
     [Say (Searching query),
      Get ''https://api.freepik.com/v1/resources''
        [(''Accept-Language'', ''en-US''), (''X-Freepik-API-Key'', api_key)]
        [(''locale'', JStr ''en-US''), (''page'', JInt page),
         (''limit'', JInt limit), (''term'', JStr query)]]"

fun is_dict :: "json \<Rightarrow> bool" where
  "is_dict (JObj kvs) = True"
| "is_dict v = False"

fun field_of :: "json \<Rightarrow> string \<Rightarrow> json" where
  "field_of (JObj kvs) k = (case map_of kvs k of None \<Rightarrow> JNull | Some v \<Rightarrow> v)"
| "field_of v k = JNull"

definition spec_summary :: "json \<Rightarrow> json" where
  "spec_summary res =
     JObj [(''id'', field_of res ''id''), (''title'', field_of res ''title''),
           (''url'', field_of res ''url'')]"

text \<open>The line that the loop prints for a result object.\<close>

definition summary_line :: "json \<Rightarrow> action" where
  "summary_line res =
     Say (Resource (field_of res ''id'') (field_of res ''title'') (field_of res ''url''))"

section \<open>One call of the quota gate\<close>

lemma gate_missing_granted:
  "0 < cap \<Longrightarrow> check_and_increment_usage cap l m None = granted cap m 1"
  by (simp add: check_and_increment_usage_def load_usage_def py_get_def py_item_def py_ge_def
      py_add_def py_set_item_def save_usage_def granted_def usage_record_def)

lemma gate_missing_refused:
  "cap \<le> 0 \<Longrightarrow> check_and_increment_usage cap l m None = refused cap None 0"
  by (simp add: check_and_increment_usage_def load_usage_def py_get_def py_item_def py_ge_def
      refused_def)

lemma gate_stale_month:
  "map_of kvs ''month'' \<noteq> Some (JStr m) \<Longrightarrow>
   check_and_increment_usage cap l m (Some (Parsed (JObj kvs))) =
     (if 0 < cap then granted cap m 1 else refused cap (Some (Parsed (JObj kvs))) 0)"
  by (auto simp add: check_and_increment_usage_def load_usage_def py_get_def py_item_def py_ge_def
      py_add_def py_set_item_def save_usage_def granted_def refused_def usage_record_def
      split: option.splits)

lemma gate_same_month_granted:
  "k < cap \<Longrightarrow>
   check_and_increment_usage cap l m (Some (Parsed (usage_record m k))) = granted cap m (k + 1)"
  by (simp add: check_and_increment_usage_def load_usage_def py_get_def py_item_def py_ge_def
      py_add_def py_set_item_def save_usage_def granted_def usage_record_def)

lemma gate_same_month_refused:
  "map_of kvs ''month'' = Some (JStr m) \<Longrightarrow> map_of kvs ''count'' = Some (JInt k) \<Longrightarrow> cap \<le> k \<Longrightarrow>
   check_and_increment_usage cap l m (Some (Parsed (JObj kvs))) =
     refused cap (Some (Parsed (JObj kvs))) k"
  by (simp add: check_and_increment_usage_def load_usage_def py_get_def py_item_def py_ge_def
      refused_def)

lemma gate_record_refused:
  "cap \<le> k \<Longrightarrow>
   check_and_increment_usage cap l m (Some (Parsed (usage_record m k))) =
     refused cap (Some (Parsed (usage_record m k))) k"
  using gate_same_month_refused [of "[(''month'', JStr m), (''count'', JInt k)]" m k cap l]
  by (simp add: usage_record_def)

text \<open>
  The reading of the clock inside \<^verbatim>\<open>load_usage\<close> does not matter: whatever month it
  puts into the default record, the gate compares with its own reading afterwards.
\<close>

lemma gate_clock_of_load:
  "check_and_increment_usage cap l m st = check_and_increment_usage cap l' m st"
  by (auto simp add: check_and_increment_usage_def load_usage_def py_get_def py_item_def py_ge_def
      py_add_def py_set_item_def save_usage_def
      split: option.splits content.splits)

lemma gate_zero_record:
  "check_and_increment_usage cap l m (Some (Parsed (usage_record m0 0))) =
     (if 0 < cap then granted cap m 1 else refused cap (Some (Parsed (usage_record m0 0))) 0)"
proof (cases "m0 = m")
  case True
  show ?thesis
  proof (cases "0 < cap")
    case True
    with gate_same_month_granted [of 0 cap l m] \<open>m0 = m\<close> show ?thesis by simp
  next
    case False
    then have "cap \<le> 0" by simp
    from gate_record_refused [OF this] show ?thesis using False \<open>m0 = m\<close> by simp
  qed
next
  case False
  then have "map_of [(''month'', JStr m0), (''count'', JInt 0)] ''month'' \<noteq> Some (JStr m)"
    by simp
  from gate_stale_month [OF this] show ?thesis by (simp add: usage_record_def)
qed

lemma gate_denied_outcome:
  assumes "check_and_increment_usage cap l now st = (Inr False, st', evs)"
  shows "st' = st \<and> (\<exists>c. evs = [Print (CapReached cap), Print (CurrentUsage c cap)])"
  using assms
  by (auto simp add: check_and_increment_usage_def Let_def save_usage_def
      split: sum.splits bool.splits prod.splits)

lemma gate_denied:
  assumes "fst (check_and_increment_usage cap l now st) = Inr False"
  shows "\<exists>c. check_and_increment_usage cap l now st =
           (Inr False, st, [Print (CapReached cap), Print (CurrentUsage c cap)])"
proof -
  obtain r st' evs where eq: "check_and_increment_usage cap l now st = (r, st', evs)"
    by (cases "check_and_increment_usage cap l now st") auto
  with assms have r: "r = Inr False" by simp
  from gate_denied_outcome [of cap l now st st' evs] eq r
  show ?thesis by auto
qed

lemma map_of_dict_set:
  "map_of (dict_set k v kvs) k' = (if k' = k then Some v else map_of kvs k')"
  by (induction kvs) auto

lemma gate_writes:
  assumes "count_nonneg st" and "check_and_increment_usage cap l now st = (r, st', evs)"
  shows "list_all (good_write now) evs \<and> count_nonneg st'"
  using assms
  by (auto simp add: check_and_increment_usage_def load_usage_def py_get_def py_item_def
      py_ge_def py_add_def py_set_item_def save_usage_def count_nonneg_def good_write_def
      map_of_dict_set
      split: option.splits content.splits json.splits sum.splits if_splits bool.splits)

section \<open>Sequences of calls in one month\<close>

lemma calls_from_record:
  "\<forall>clk\<in>set clks. snd clk = m \<Longrightarrow> k + int (length clks) \<le> cap \<Longrightarrow>
   sequential_calls cap clks (Some (Parsed (usage_record m k))) =
     map (\<lambda>i. granted cap m (k + int i + 1)) [0..<length clks]"
proof (induction clks arbitrary: k)
  case Nil
  then show ?case by simp
next
  case (Cons clk clks)
  have m: "snd clk = m" and rest: "\<forall>c\<in>set clks. snd c = m"
    using Cons.prems(1) by simp_all
  have lt: "k < cap" and le: "(k + 1) + int (length clks) \<le> cap"
    using Cons.prems(2) by simp_all
  have step: "check_and_increment_usage cap (fst clk) (snd clk) (Some (Parsed (usage_record m k)))
      = granted cap m (k + 1)"
    using gate_same_month_granted [OF lt] m by simp
  have tail: "sequential_calls cap clks (Some (Parsed (usage_record m (k + 1)))) =
      map (\<lambda>i. granted cap m (k + 1 + int i + 1)) [0..<length clks]"
    using Cons.IH [OF rest le] .
  show ?case
    using step tail by (simp add: granted_def map_upt_Suc add.commute add.left_commute del: upt_Suc)
qed

lemma calls_within_cap:
  assumes all: "\<forall>clk\<in>set clks. snd clk = m" and le: "int (length clks) \<le> cap"
  shows "sequential_calls cap clks None =
     map (\<lambda>i. granted cap m (int i + 1)) [0..<length clks]"
proof (cases clks)
  case Nil
  then show ?thesis by simp
next
  case (Cons clk rest)
  have m: "snd clk = m" and rest: "\<forall>c\<in>set rest. snd c = m"
    using all Cons by simp_all
  have pos: "0 < cap" and le': "1 + int (length rest) \<le> cap"
    using le Cons by simp_all
  have step: "check_and_increment_usage cap (fst clk) (snd clk) None = granted cap m 1"
    using gate_missing_granted [OF pos] m by simp
  have tail: "sequential_calls cap rest (Some (Parsed (usage_record m 1))) =
      map (\<lambda>i. granted cap m (1 + int i + 1)) [0..<length rest]"
    using calls_from_record [OF rest le'] .
  show ?thesis
    using step tail Cons
    by (simp add: granted_def map_upt_Suc add.commute add.left_commute del: upt_Suc)
qed

lemma calls_at_cap:
  "\<forall>clk\<in>set clks. snd clk = m \<Longrightarrow> cap \<le> k \<Longrightarrow>
   sequential_calls cap clks (Some (Parsed (usage_record m k))) =
     replicate (length clks) (refused cap (Some (Parsed (usage_record m k))) k)"
proof (induction clks)
  case Nil
  then show ?case by simp
next
  case (Cons clk clks)
  have step: "check_and_increment_usage cap (fst clk) (snd clk) (Some (Parsed (usage_record m k)))
      = refused cap (Some (Parsed (usage_record m k))) k"
    using gate_record_refused [of cap k "fst clk" m] Cons.prems by simp
  show ?case using step Cons by (simp add: refused_def)
qed

lemma sequential_calls_append:
  "sequential_calls cap (xs @ ys) st =
     sequential_calls cap xs st @ sequential_calls cap ys (store_after cap xs st)"
  by (induction xs arbitrary: st) (auto split: prod.splits)

lemma store_after_append:
  "store_after cap (xs @ ys) st = store_after cap ys (store_after cap xs st)"
  by (induction xs arbitrary: st) simp_all

lemma store_after_last:
  "clks \<noteq> [] \<Longrightarrow> store_after cap clks st = fst (snd (last (sequential_calls cap clks st)))"
proof (induction clks arbitrary: st)
  case Nil
  then show ?case by simp
next
  case (Cons clk clks)
  show ?case
  proof (cases clks)
    case Nil
    then show ?thesis by (simp split: prod.splits)
  next
    case (Cons c cs)
    then have ne: "clks \<noteq> []" by simp
    have "sequential_calls cap clks st' \<noteq> []" for st'
      using Cons by (simp split: prod.splits)
    then show ?thesis
      using Cons.IH [OF ne] by (simp split: prod.splits)
  qed
qed

lemma store_after_within_cap:
  assumes all: "\<forall>clk\<in>set clks. snd clk = m" and le: "int (length clks) \<le> cap"
    and ne: "clks \<noteq> []"
  shows "store_after cap clks None = Some (Parsed (usage_record m (int (length clks))))"
proof -
  have pos: "0 < length clks" using ne by simp
  have idx: "int (length clks - Suc 0) + 1 = int (length clks)"
    using pos by linarith
  have "last (map (\<lambda>i. granted cap m (int i + 1)) [0..<length clks])
      = granted cap m (int (length clks - Suc 0) + 1)"
    using pos by (simp add: last_map)
  then have "last (map (\<lambda>i. granted cap m (int i + 1)) [0..<length clks])
      = granted cap m (int (length clks))"
    by (simp only: idx)
  then have "last (sequential_calls cap clks None) = granted cap m (int (length clks))"
    using calls_within_cap [OF all le] by simp
  then show ?thesis
    using store_after_last [OF ne, of cap None] by (simp add: granted_def)
qed

lemma store_after_at_cap:
  "\<forall>clk\<in>set clks. snd clk = m \<Longrightarrow> cap \<le> k \<Longrightarrow>
   store_after cap clks (Some (Parsed (usage_record m k))) = Some (Parsed (usage_record m k))"
proof (induction clks)
  case Nil
  then show ?case by simp
next
  case (Cons clk clks)
  have step: "check_and_increment_usage cap (fst clk) (snd clk) (Some (Parsed (usage_record m k)))
      = refused cap (Some (Parsed (usage_record m k))) k"
    using gate_record_refused [of cap k "fst clk" m] Cons.prems by simp
  show ?case using step Cons by (simp add: refused_def)
qed

lemma calls_beyond_cap:
  assumes all: "\<forall>clk\<in>set clks. snd clk = m" and pos: "0 < cap"
    and more: "cap < int (length clks)"
  shows "sequential_calls cap clks None =
           map (\<lambda>i. granted cap m (int i + 1)) [0..<nat cap]
           @ replicate (length clks - nat cap) (refused cap (Some (Parsed (usage_record m cap))) cap)"
    and "store_after cap clks None = Some (Parsed (usage_record m cap))"
proof -
  define xs where "xs = take (nat cap) clks"
  define ys where "ys = drop (nat cap) clks"
  have clks: "clks = xs @ ys" by (simp add: xs_def ys_def)
  have len_xs: "length xs = nat cap" using more by (simp add: xs_def)
  have len_ys: "length ys = length clks - nat cap" by (simp add: ys_def)
  have ne: "xs \<noteq> []" using len_xs pos by auto
  have all_xs: "\<forall>clk\<in>set xs. snd clk = m" using all by (auto simp: xs_def dest: in_set_takeD)
  have all_ys: "\<forall>clk\<in>set ys. snd clk = m" using all by (auto simp: ys_def dest: in_set_dropD)
  have le: "int (length xs) \<le> cap" using len_xs pos by simp
  have int_len: "int (length xs) = cap" using len_xs pos by simp
  have first: "sequential_calls cap xs None = map (\<lambda>i. granted cap m (int i + 1)) [0..<nat cap]"
    using calls_within_cap [OF all_xs le] len_xs by simp
  have mid: "store_after cap xs None = Some (Parsed (usage_record m cap))"
    using store_after_within_cap [OF all_xs le ne] int_len by simp
  have rest: "sequential_calls cap ys (Some (Parsed (usage_record m cap))) =
      replicate (length clks - nat cap) (refused cap (Some (Parsed (usage_record m cap))) cap)"
    using calls_at_cap [OF all_ys, of cap cap] len_ys by simp
  show "sequential_calls cap clks None =
           map (\<lambda>i. granted cap m (int i + 1)) [0..<nat cap]
           @ replicate (length clks - nat cap) (refused cap (Some (Parsed (usage_record m cap))) cap)"
    unfolding clks sequential_calls_append first mid rest
    using len_xs len_ys clks by simp
  show "store_after cap clks None = Some (Parsed (usage_record m cap))"
    unfolding clks store_after_append mid
    using store_after_at_cap [OF all_ys, of cap cap] by simp
qed

lemma calls_nonpositive_cap_missing:
  "cap \<le> 0 \<Longrightarrow> sequential_calls cap clks None = map (\<lambda>clk. refused cap None 0) clks"
  by (induction clks) (simp_all add: gate_missing_refused refused_def)

lemma calls_nonpositive_cap_zero_record:
  "cap \<le> 0 \<Longrightarrow> sequential_calls cap clks (Some (Parsed (usage_record m0 0))) =
      map (\<lambda>clk. refused cap (Some (Parsed (usage_record m0 0))) 0) clks"
  by (induction clks) (simp_all add: gate_zero_record refused_def)

lemma missing_like_zero_record:
  shows "map (\<lambda>res. (fst res, snd (snd res))) (sequential_calls cap clks None) =
     map (\<lambda>res. (fst res, snd (snd res)))
       (sequential_calls cap clks (Some (Parsed (usage_record m0 0))))"
    and "0 < cap \<Longrightarrow>
     sequential_calls cap clks None = sequential_calls cap clks (Some (Parsed (usage_record m0 0)))"
proof -
  show pos: "sequential_calls cap clks None = sequential_calls cap clks (Some (Parsed (usage_record m0 0)))"
    if "0 < cap"
  proof (cases clks)
    case Nil
    then show ?thesis by simp
  next
    case (Cons clk rest)
    then show ?thesis
      using that gate_missing_granted [OF that, of "fst clk" "snd clk"]
        gate_zero_record [of cap "fst clk" "snd clk" m0]
      by (simp add: granted_def)
  qed
  show "map (\<lambda>res. (fst res, snd (snd res))) (sequential_calls cap clks None) =
     map (\<lambda>res. (fst res, snd (snd res)))
       (sequential_calls cap clks (Some (Parsed (usage_record m0 0))))"
  proof (cases "0 < cap")
    case True
    then show ?thesis using pos by simp
  next
    case False
    then have "cap \<le> 0" by simp
    then show ?thesis
      by (simp add: calls_nonpositive_cap_missing calls_nonpositive_cap_zero_record refused_def)
  qed
qed

lemma calls_writes:
  "count_nonneg st \<Longrightarrow>
   list_all2 (\<lambda>clk res. list_all (good_write (snd clk)) (snd (snd res)))
     clks (sequential_calls cap clks st)
   \<and> list_all (\<lambda>res. count_nonneg (fst (snd res))) (sequential_calls cap clks st)"
proof (induction clks arbitrary: st)
  case Nil
  then show ?case by simp
next
  case (Cons clk clks)
  obtain r st' evs where step: "check_and_increment_usage cap (fst clk) (snd clk) st = (r, st', evs)"
    by (cases "check_and_increment_usage cap (fst clk) (snd clk) st") auto
  from gate_writes [OF Cons.prems step]
  have w: "list_all (good_write (snd clk)) evs" and inv: "count_nonneg st'" by simp_all
  from Cons.IH [OF inv] show ?case using step w inv by simp
qed

section \<open>Loading the usage record\<close>

text \<open>
  C7. \<^verbatim>\<open>load_usage\<close> tolerates a missing usage file: it returns the default record
  of the current month with count 0. On a file that is present but is not JSON it raises
  (\<^verbatim>\<open>json.load\<close>'s \<^verbatim>\<open>JSONDecodeError\<close> is not caught), the quota gate passes the
  exception on, and nothing is written: the count is not reset. A file that parses is
  returned as it is.
\<close>

theorem load_usage_missing_or_corrupt:
  "load_usage now None = Inr (usage_record now 0)
   \<and> load_usage now (Some NotJSON) = Inl JSONDecodeError
   \<and> load_usage now (Some (Parsed v)) = Inr v
   \<and> check_and_increment_usage cap now_load now (Some NotJSON)
       = (Inl JSONDecodeError, Some NotJSON, [])"
  by (simp add: load_usage_def usage_record_def check_and_increment_usage_def)

section \<open>The quota gate: claims\<close>

text \<open>
  C1. From a missing usage file, calls that all read the same month \<open>m\<close> and are no more
  than the cap are all granted: call number \<open>i\<close> (from 0) returns \<open>True\<close>, writes and
  leaves the record of month \<open>m\<close> with count \<open>i + 1\<close>. So all \<open>N\<close> calls return
  \<open>True\<close>, and after the last one the stored count is \<open>N\<close>.
\<close>

theorem calls_up_to_cap_granted:
  assumes "\<forall>clk\<in>set clks. snd clk = m" and "int (length clks) \<le> cap"
  shows "sequential_calls cap clks None = map (\<lambda>i. granted cap m (int i + 1)) [0..<length clks]
    \<and> map fst (sequential_calls cap clks None) = replicate (length clks) (Inr True)
    \<and> (clks \<noteq> [] \<longrightarrow>
         store_after cap clks None = Some (Parsed (usage_record m (int (length clks)))))"
proof -
  have run: "sequential_calls cap clks None =
      map (\<lambda>i. granted cap m (int i + 1)) [0..<length clks]"
    using calls_within_cap [OF assms] .
  have "map fst (map (\<lambda>i. granted cap m (int i + 1)) [0..<length clks]) =
      replicate (length clks) (Inr True)"
    by (simp add: granted_def comp_def map_replicate_const)
  then have decisions: "map fst (sequential_calls cap clks None) = replicate (length clks) (Inr True)"
    using run by simp
  show ?thesis
    using run decisions store_after_within_cap [OF assms] by simp
qed

theorem calls_up_to_cap_granted_witness:
  "int (length [(''2025-01'', ''2025-01''), (''2025-01'', ''2025-01'')]) \<le> MONTHLY_CAP
   \<and> sequential_calls MONTHLY_CAP [(''2025-01'', ''2025-01''), (''2025-01'', ''2025-01'')] None
       = [granted MONTHLY_CAP ''2025-01'' 1, granted MONTHLY_CAP ''2025-01'' 2]
   \<and> store_after MONTHLY_CAP [(''2025-01'', ''2025-01''), (''2025-01'', ''2025-01'')] None
       = Some (Parsed (usage_record ''2025-01'' 2))"
proof -
  have same: "\<forall>clk\<in>set [(''2025-01'', ''2025-01''), (''2025-01'', ''2025-01'')].
      snd clk = ''2025-01''"
    by simp
  have le: "int (length [(''2025-01'', ''2025-01''), (''2025-01'', ''2025-01'')]) \<le> MONTHLY_CAP"
    by (simp add: MONTHLY_CAP_def)
  show ?thesis
    using le calls_up_to_cap_granted [OF same le] by simp
qed

text \<open>
  C2. From a missing usage file and with a positive cap, of more calls than the cap that all
  read the same month \<open>m\<close>, exactly the first \<open>cap\<close> are granted, with the stored counts
  1 to \<open>cap\<close>, and every later call is refused, writes nothing and leaves the record with
  count \<open>cap\<close>: the stored count is never above the cap.
\<close>

theorem calls_beyond_cap_refused:
  assumes "\<forall>clk\<in>set clks. snd clk = m" and "0 < cap" and "cap < int (length clks)"
  shows "sequential_calls cap clks None =
           map (\<lambda>i. granted cap m (int i + 1)) [0..<nat cap]
           @ replicate (length clks - nat cap)
               (refused cap (Some (Parsed (usage_record m cap))) cap)
    \<and> map fst (sequential_calls cap clks None) =
           replicate (nat cap) (Inr True) @ replicate (length clks - nat cap) (Inr False)
    \<and> list_all (\<lambda>res. \<exists>k. 1 \<le> k \<and> k \<le> cap \<and> fst (snd res) = Some (Parsed (usage_record m k)))
           (sequential_calls cap clks None)
    \<and> store_after cap clks None = Some (Parsed (usage_record m cap))"
proof -
  let ?run = "map (\<lambda>i. granted cap m (int i + 1)) [0..<nat cap]
           @ replicate (length clks - nat cap)
               (refused cap (Some (Parsed (usage_record m cap))) cap)"
  have run: "sequential_calls cap clks None = ?run"
    using calls_beyond_cap(1) [OF assms] .
  have decisions: "map fst ?run =
      replicate (nat cap) (Inr True) @ replicate (length clks - nat cap) (Inr False)"
    by (simp add: granted_def refused_def comp_def map_replicate_const)
  have bounded: "list_all (\<lambda>res. \<exists>k. 1 \<le> k \<and> k \<le> cap
      \<and> fst (snd res) = Some (Parsed (usage_record m k))) ?run"
  proof -
    have "\<exists>k. 1 \<le> k \<and> k \<le> cap
        \<and> fst (snd (granted cap m (int i + 1))) = Some (Parsed (usage_record m k))"
      if "i < nat cap" for i
    proof -
      have "1 \<le> int i + 1" and "int i + 1 \<le> cap" using that by simp_all
      then show ?thesis
        by (intro exI [of _ "int i + 1"]) (simp add: granted_def)
    qed
    moreover have "\<exists>k. 1 \<le> k \<and> k \<le> cap
        \<and> fst (snd (refused cap (Some (Parsed (usage_record m cap))) cap))
            = Some (Parsed (usage_record m k))"
      using assms(2) by (intro exI [of _ cap]) (simp add: refused_def)
    ultimately show ?thesis
      unfolding list_all_iff by (auto simp del: ex_simps)
  qed
  show ?thesis
    using run decisions bounded calls_beyond_cap(2) [OF assms] by simp
qed

theorem calls_beyond_cap_refused_witness:
  "(0::int) < 2
   \<and> 2 < int (length [(''2025-01'', ''2025-01''), (''2025-01'', ''2025-01''),
                       (''2025-01'', ''2025-01'')])
   \<and> sequential_calls 2 [(''2025-01'', ''2025-01''), (''2025-01'', ''2025-01''),
                          (''2025-01'', ''2025-01'')] None
       = [granted 2 ''2025-01'' 1, granted 2 ''2025-01'' 2,
          refused 2 (Some (Parsed (usage_record ''2025-01'' 2))) 2]
   \<and> store_after 2 [(''2025-01'', ''2025-01''), (''2025-01'', ''2025-01''),
                     (''2025-01'', ''2025-01'')] None
       = Some (Parsed (usage_record ''2025-01'' 2))"
proof -
  have same: "\<forall>clk\<in>set [(''2025-01'', ''2025-01''), (''2025-01'', ''2025-01''),
      (''2025-01'', ''2025-01'')]. snd clk = ''2025-01''"
    by simp
  have pos: "(0::int) < 2" by simp
  have more: "2 < int (length [(''2025-01'', ''2025-01''), (''2025-01'', ''2025-01''),
      (''2025-01'', ''2025-01'')])"
    by simp
  have two: "[0..<nat 2] = [0, 1]"
    by (simp add: numeral_2_eq_2)
  show ?thesis
    using calls_beyond_cap_refused [OF same pos more] two by simp
qed

text \<open>
  C3. When the quota gate denies, \<^verbatim>\<open>generate_image\<close> ends with \<^verbatim>\<open>sys.exit(1)\<close>
  after the gate's two lines about the reached cap, which is how the script reports an
  exceeded quota. These two lines are all that happens: the usage file is as before, it is
  not written, no environment variable is set, and the image service is not called.
\<close>

theorem generate_image_denied:
  assumes "fst (check_and_increment_usage cap now_load now st) = Inr False"
  shows "\<exists>c. generate_image cap now_load now sdk prompt output_path st =
           (Inl (SystemExit 1), st, [Print (CapReached cap), Print (CurrentUsage c cap)])"
proof -
  from gate_denied [OF assms] obtain c where
    "check_and_increment_usage cap now_load now st =
       (Inr False, st, [Print (CapReached cap), Print (CurrentUsage c cap)])"
    by blast
  then have "generate_image cap now_load now sdk prompt output_path st =
       (Inl (SystemExit 1), st, [Print (CapReached cap), Print (CurrentUsage c cap)])"
    by (simp add: generate_image_def)
  then show ?thesis by blast
qed

theorem generate_image_denied_witness:
  "fst (check_and_increment_usage MONTHLY_CAP ''2025-01'' ''2025-01''
          (Some (Parsed (usage_record ''2025-01'' 2500)))) = Inr False
   \<and> (\<exists>c. generate_image MONTHLY_CAP ''2025-01'' ''2025-01''
          \<lparr>installed = True, init_raises = None, from_pretrained_raises = None,
           generate_images_result = Inr 1, save_raises = None\<rparr>
          ''a red bicycle'' ''output.png'' (Some (Parsed (usage_record ''2025-01'' 2500)))
        = (Inl (SystemExit 1), Some (Parsed (usage_record ''2025-01'' 2500)),
           [Print (CapReached MONTHLY_CAP), Print (CurrentUsage c MONTHLY_CAP)]))"
proof -
  have denied: "fst (check_and_increment_usage MONTHLY_CAP ''2025-01'' ''2025-01''
      (Some (Parsed (usage_record ''2025-01'' 2500)))) = Inr False"
    using gate_record_refused [of MONTHLY_CAP 2500 "''2025-01''" "''2025-01''"]
    by (simp add: MONTHLY_CAP_def refused_def)
  show ?thesis
    using denied generate_image_denied [OF denied] by simp
qed

text \<open>
  C4. When the stored object's month is not the month \<open>m\<close> that the call reads (another
  month, or no month at all) and the cap is positive, the call is granted and writes the
  record of month \<open>m\<close> with count 1, whatever the stored object holds otherwise: the call
  does exactly what it does on the record of month \<open>m\<close> with count 0.
\<close>

theorem stale_month_resets:
  assumes "0 < cap" and "map_of kvs ''month'' \<noteq> Some (JStr m)"
  shows "check_and_increment_usage cap now_load m (Some (Parsed (JObj kvs))) = granted cap m 1
    \<and> check_and_increment_usage cap now_load m (Some (Parsed (JObj kvs))) =
       check_and_increment_usage cap now_load m (Some (Parsed (usage_record m 0)))"
  using assms gate_stale_month [OF assms(2), of cap now_load]
    gate_zero_record [of cap now_load m m]
  by simp

theorem stale_month_resets_witness:
  "(0::int) < 2
   \<and> map_of [(''month'', JStr ''2024-12''), (''count'', JInt 2)] ''month'' \<noteq> Some (JStr ''2025-01'')
   \<and> check_and_increment_usage 2 ''2025-01'' ''2025-01''
        (Some (Parsed (JObj [(''month'', JStr ''2024-12''), (''count'', JInt 2)])))
      = (Inr True, Some (Parsed (usage_record ''2025-01'' 1)),
         [SaveUsage (usage_record ''2025-01'' 1), Print (UsageOk (JInt 1) 2)])"
proof -
  have pos: "(0::int) < 2" by simp
  have stale: "map_of [(''month'', JStr ''2024-12''), (''count'', JInt 2)] ''month''
      \<noteq> Some (JStr ''2025-01'')"
    by simp
  show ?thesis
    using stale stale_month_resets [OF pos stale, of "''2025-01''"]
    by (simp add: granted_def)
qed

text \<open>
  C5. When the stored object has the month that the call reads and an integer count that
  is at least the cap, the call returns \<open>False\<close>, prints its two lines and writes
  nothing: the store after the call is the store before it.
\<close>

theorem denial_preserves_store:
  assumes "map_of kvs ''month'' = Some (JStr m)" and "map_of kvs ''count'' = Some (JInt k)"
    and "cap \<le> k"
  shows "check_and_increment_usage cap now_load m (Some (Parsed (JObj kvs))) =
           (Inr False, Some (Parsed (JObj kvs)),
            [Print (CapReached cap), Print (CurrentUsage (JInt k) cap)])"
  using gate_same_month_refused [OF assms] by (simp add: refused_def)

theorem denial_preserves_store_witness:
  "map_of [(''month'', JStr ''2025-01''), (''count'', JInt 2500)] ''month'' = Some (JStr ''2025-01'')
   \<and> map_of [(''month'', JStr ''2025-01''), (''count'', JInt 2500)] ''count'' = Some (JInt 2500)
   \<and> MONTHLY_CAP \<le> 2500
   \<and> check_and_increment_usage MONTHLY_CAP ''2025-01'' ''2025-01''
        (Some (Parsed (JObj [(''month'', JStr ''2025-01''), (''count'', JInt 2500)])))
      = (Inr False, Some (Parsed (JObj [(''month'', JStr ''2025-01''), (''count'', JInt 2500)])),
         [Print (CapReached MONTHLY_CAP), Print (CurrentUsage (JInt 2500) MONTHLY_CAP)])"
proof -
  have mon: "map_of [(''month'', JStr ''2025-01''), (''count'', JInt 2500)] ''month''
      = Some (JStr ''2025-01'')"
    by simp
  have cnt: "map_of [(''month'', JStr ''2025-01''), (''count'', JInt 2500)] ''count''
      = Some (JInt 2500)"
    by simp
  have cap: "MONTHLY_CAP \<le> 2500" by (simp add: MONTHLY_CAP_def)
  show ?thesis
    using mon cnt cap denial_preserves_store [OF mon cnt cap, of "''2025-01''"] by simp
qed

text \<open>
  C6. A missing usage file and a usage file that holds a record with count 0 cannot be
  told apart by calling the gate: for every cap and every sequence of calls, each call
  returns the same and prints and writes the same in both cases; and for every positive
  cap the store after each call is the same as well.
\<close>

theorem missing_store_is_zero_record:
  "map (\<lambda>res. (fst res, snd (snd res))) (sequential_calls cap clks None) =
     map (\<lambda>res. (fst res, snd (snd res)))
       (sequential_calls cap clks (Some (Parsed (usage_record m 0))))
   \<and> (0 < cap \<longrightarrow>
        sequential_calls cap clks None =
          sequential_calls cap clks (Some (Parsed (usage_record m 0))))"
  using missing_like_zero_record [of cap clks m] by simp

theorem missing_store_is_zero_record_witness:
  "(0::int) < 2
   \<and> sequential_calls 2 [(''2025-01'', ''2025-01''), (''2025-01'', ''2025-01''),
                          (''2025-01'', ''2025-01''), (''2025-02'', ''2025-02'')] None
     = sequential_calls 2 [(''2025-01'', ''2025-01''), (''2025-01'', ''2025-01''),
                           (''2025-01'', ''2025-01''), (''2025-02'', ''2025-02'')]
         (Some (Parsed (usage_record ''2025-01'' 0)))"
  using missing_store_is_zero_record
    [of 2 "[(''2025-01'', ''2025-01''), (''2025-01'', ''2025-01''),
            (''2025-01'', ''2025-01''), (''2025-02'', ''2025-02'')]" "''2025-01''"]
  by simp

text \<open>
  C10. Along every sequence of calls, from a store whose integer count is not negative
  (a missing file is such a store), every record that a call writes has the month that
  this call reads as the current month and an integer count of at least 1; and the store
  after each call again has no negative count, so the condition holds for the next call.
\<close>

theorem persisted_records_current_month:
  assumes "count_nonneg st"
  shows "list_all2 (\<lambda>clk res. list_all (good_write (snd clk)) (snd (snd res)))
           clks (sequential_calls cap clks st)
    \<and> list_all (\<lambda>res. count_nonneg (fst (snd res))) (sequential_calls cap clks st)"
  using calls_writes [OF assms] .

theorem persisted_records_current_month_witness:
  "count_nonneg (Some (Parsed (usage_record ''2025-01'' 1)))
   \<and> list_all2 (\<lambda>clk res. list_all (good_write (snd clk)) (snd (snd res)))
        [(''2025-01'', ''2025-01''), (''2025-02'', ''2025-02'')]
        (sequential_calls 5 [(''2025-01'', ''2025-01''), (''2025-02'', ''2025-02'')]
           (Some (Parsed (usage_record ''2025-01'' 1))))
   \<and> sequential_calls 5 [(''2025-01'', ''2025-01''), (''2025-02'', ''2025-02'')]
           (Some (Parsed (usage_record ''2025-01'' 1)))
       = [granted 5 ''2025-01'' 2, granted 5 ''2025-02'' 1]"
proof -
  have inv: "count_nonneg (Some (Parsed (usage_record ''2025-01'' 1)))"
    by (simp add: count_nonneg_def usage_record_def)
  have first: "check_and_increment_usage 5 ''2025-01'' ''2025-01''
      (Some (Parsed (usage_record ''2025-01'' 1))) = granted 5 ''2025-01'' 2"
    using gate_same_month_granted [of 1 5 "''2025-01''" "''2025-01''"] by simp
  have second: "check_and_increment_usage 5 ''2025-02'' ''2025-02''
      (Some (Parsed (usage_record ''2025-01'' 2))) = granted 5 ''2025-02'' 1"
    using gate_stale_month [of "[(''month'', JStr ''2025-01''), (''count'', JInt 2)]"
        "''2025-02''" 5 "''2025-02''"]
    by (simp add: usage_record_def)
  have run: "sequential_calls 5 [(''2025-01'', ''2025-01''), (''2025-02'', ''2025-02'')]
      (Some (Parsed (usage_record ''2025-01'' 1)))
      = [granted 5 ''2025-01'' 2, granted 5 ''2025-02'' 1]"
    using first second by (simp add: granted_def)
  show ?thesis
    using inv run
      persisted_records_current_month [OF inv,
        of "[(''2025-01'', ''2025-01''), (''2025-02'', ''2025-02'')]" 5]
    by simp
qed

section \<open>The search client: claims\<close>

lemma search_request_acts:
  "[Say (Searching query),
    Get (BASE_URL @ ''/resources'')
      [(''Accept-Language'', ''en-US''), (''X-Freepik-API-Key'', api_key)]
      [(''locale'', JStr ''en-US''), (''page'', JInt page),
       (''limit'', JInt limit), (''term'', JStr query)]]
   = search_request api_key query limit page"
  by (simp add: search_request_def BASE_URL_def)

lemma resource_line_dict:
  "is_dict res \<Longrightarrow> resource_line res = Inr (summary_line res)"
  by (cases res) (simp_all add: resource_line_def py_get_def summary_line_def split: option.splits)

lemma print_resources_dicts:
  "list_all is_dict items \<Longrightarrow> print_resources items = (None, map summary_line items)"
  by (induction items) (simp_all add: resource_line_dict)

lemma search_http_error:
  assumes "400 \<le> status_code r" and "status_code r < 600"
  shows "search_resources api_key query limit page (Reply r) =
           (Inr (JArr []),
            search_request api_key query limit page
            @ Say (ApiError (HTTPError (status_code r)))
              # (if text' r \<noteq> [] then [Say (ResponseText (text' r))] else []))"
  using assms
  by (simp add: search_resources_def Let_def on_request_exception_def search_request_acts)

lemma search_success:
  assumes "status_code r < 400 \<or> 600 \<le> status_code r"
    and "body r = Parsed (JObj obj)"
    and "map_of obj ''data'' = Some (JArr items)"
    and "list_all is_dict items"
  shows "search_resources api_key query limit page (Reply r) =
           (Inr (JArr items),
            search_request api_key query limit page
            @ Say (Found (length items)) # map summary_line items)"
proof -
  have status: "\<not> (400 \<le> status_code r \<and> status_code r < 600)"
    using assms(1) by auto
  have loop: "print_resources items = (None, map summary_line items)"
    using print_resources_dicts [OF assms(4)] .
  show ?thesis
    using status assms(2,3) loop
    by (auto simp add: search_resources_def Let_def py_get_default_def py_len_def py_iter_def
        search_request_acts)
qed

lemma search_no_items:
  assumes "status_code r < 400 \<or> 600 \<le> status_code r"
    and "body r = Parsed (JObj obj)"
    and "map_of obj ''data'' = Some (JArr [])"
  shows "search_resources api_key query limit page (Reply r) =
           (Inr (JArr []), search_request api_key query limit page @ [Say (Found 0)])"
  using search_success [OF assms, of api_key query limit page] by simp

text \<open>
  C8. When the request does not get through, \<^verbatim>\<open>requests.get\<close> raises before the local
  variable \<^verbatim>\<open>response\<close> is bound. The \<^verbatim>\<open>except\<close> clause prints the error and then
  reads \<^verbatim>\<open>response.text\<close>: \<^verbatim>\<open>search_resources\<close> ends with an
  \<^verbatim>\<open>UnboundLocalError\<close> that nothing catches, and returns no list. (On an HTTP error
  status the variable is bound, and the function returns the empty list:
  \<open>search_http_error\<close>.)
\<close>

theorem search_resources_transport_failure:
  "search_resources api_key query limit page (Failed e) =
     (Inl UnboundLocalError,
      search_request api_key query limit page @ [Say (ApiError (Transport e))])"
  by (simp add: search_resources_def Let_def on_request_exception_def search_request_acts)

text \<open>
  C9, as the specification words it: the returned sequence holds the summaries of the
  result objects. It does not: the function returns the result objects themselves, so a
  member beyond \<^verbatim>\<open>id\<close>, \<^verbatim>\<open>title\<close> and \<^verbatim>\<open>url\<close> (here \<^verbatim>\<open>filename\<close>) is still
  there.
\<close>

theorem search_resources_returns_whole_items:
  "fst (search_resources ''key'' ''cat'' 5 1
      (Reply \<lparr>status_code = 200,
              text' = ''{\"data\": [{\"id\": 1, \"title\": \"Cat\", \"url\": \"u\", \"filename\": \"cat.jpg\"}]}'',
              body = Parsed (JObj [(''data'', JArr
                [JObj [(''id'', JInt 1), (''title'', JStr ''Cat''), (''url'', JStr ''u''),
                       (''filename'', JStr ''cat.jpg'')]])])\<rparr>))
   \<noteq> Inr (JArr (map spec_summary
        [JObj [(''id'', JInt 1), (''title'', JStr ''Cat''), (''url'', JStr ''u''),
               (''filename'', JStr ''cat.jpg'')]]))"
  by (simp add: search_resources_def Let_def py_get_default_def py_len_def py_iter_def
      resource_line_def py_get_def spec_summary_def)

text \<open>
  C9, amended. When the response has no error status and its body is a JSON object whose
  \<^verbatim>\<open>data\<close> member is an array of objects, \<^verbatim>\<open>search_resources\<close> returns that array
  as it is, every object with all its members and in the server's order, after printing
  the number of results and, for each result in this order, its \<^verbatim>\<open>id\<close>,
  \<^verbatim>\<open>title\<close> and \<^verbatim>\<open>url\<close>. An array of no objects gives the empty list
  (\<open>search_no_items\<close>).
\<close>

theorem search_resources_success:
  assumes "status_code r < 400 \<or> 600 \<le> status_code r"
    and "body r = Parsed (JObj obj)"
    and "map_of obj ''data'' = Some (JArr items)"
    and "list_all is_dict items"
  shows "search_resources api_key query limit page (Reply r) =
           (Inr (JArr items),
            search_request api_key query limit page
            @ Say (Found (length items)) # map summary_line items)"
  using search_success [OF assms] .

theorem search_resources_success_witness:
  "search_resources ''key'' ''cat'' 5 1
      (Reply \<lparr>status_code = 200,
              text' = ''{\"data\": [{\"id\": 1, \"title\": \"Cat\", \"url\": \"u\", \"filename\": \"cat.jpg\"}, {\"id\": 2}]}'',
              body = Parsed (JObj [(''data'', JArr
                [JObj [(''id'', JInt 1), (''title'', JStr ''Cat''), (''url'', JStr ''u''),
                       (''filename'', JStr ''cat.jpg'')],
                 JObj [(''id'', JInt 2)]])])\<rparr>)
   = (Inr (JArr [JObj [(''id'', JInt 1), (''title'', JStr ''Cat''), (''url'', JStr ''u''),
                       (''filename'', JStr ''cat.jpg'')],
                 JObj [(''id'', JInt 2)]]),
      search_request ''key'' ''cat'' 5 1
      @ [Say (Found 2), Say (Resource (JInt 1) (JStr ''Cat'') (JStr ''u'')),
         Say (Resource (JInt 2) JNull JNull)])"
proof -
  let ?items = "[JObj [(''id'', JInt 1), (''title'', JStr ''Cat''), (''url'', JStr ''u''),
                       (''filename'', JStr ''cat.jpg'')],
                 JObj [(''id'', JInt 2)]]"
  let ?r = "\<lparr>status_code = 200,
              text' = ''{\"data\": [{\"id\": 1, \"title\": \"Cat\", \"url\": \"u\", \"filename\": \"cat.jpg\"}, {\"id\": 2}]}'',
              body = Parsed (JObj [(''data'', JArr ?items)])\<rparr>"
  have status: "status_code ?r < 400 \<or> 600 \<le> status_code ?r" by simp
  have body: "body ?r = Parsed (JObj [(''data'', JArr ?items)])" by simp
  have data: "map_of [(''data'', JArr ?items)] ''data'' = Some (JArr ?items)" by simp
  have dicts: "list_all is_dict ?items" by simp
  show ?thesis
    using search_resources_success [OF status body data dicts, of "''key''" "''cat''" 5 1]
    by (simp add: summary_line_def)
qed

end
